theory Spec2Isabelle
  imports Main
begin

section \<open>Python values used by \<open>shiny/_autoreload.py\<close>\<close>

text \<open>
  A Python \<open>bytes\<close> object is a list of 8-bit characters. A Python \<open>str\<close> is a list
  of Unicode code points, kept as natural numbers so that code points beyond ASCII
  (on which \<open>encode("ascii")\<close> raises) exist in the model.
\<close>

type_synonym bytes = "char list"
type_synonym pystr = "nat list"

text \<open>The exceptions the module can raise, as values.\<close>

datatype error =
    AssertionError
  | TypeError
  | ValueError
  | KeyError
  | RuntimeError
  | MultipleValuesError
  | UnicodeDecodeError
  | UnicodeEncodeError

text \<open>A \<open>str\<close> literal of the source, as code points.\<close>

definition str_lit :: "string \<Rightarrow> pystr" where
  "str_lit s = map of_char s"

text \<open>\<open>name.decode("ascii")\<close>: raises on a byte above 127.\<close>

definition is_ascii :: "bytes \<Rightarrow> bool" where
  "is_ascii b = list_all (\<lambda>c. (of_char c :: nat) < 128) b"

definition decode_ascii :: "bytes \<Rightarrow> error + pystr" where
  "decode_ascii b = (if is_ascii b then Inr (map of_char b) else Inl UnicodeDecodeError)"

text \<open>\<open>s.encode("ascii")\<close>: raises on a code point above 127.\<close>

definition encode_ascii :: "pystr \<Rightarrow> error + bytes" where
  "encode_ascii s =
     (if list_all (\<lambda>c. c < 128) s then Inr (map char_of s)
      else Inl UnicodeEncodeError)"

text \<open>
  \<open>str.lower()\<close>. The module applies it only to the result of \<open>decode("ascii")\<close>,
  where it maps \<open>A\<close>..\<open>Z\<close> to \<open>a\<close>..\<open>z\<close> and leaves the rest alone.
\<close>

definition lower_cp :: "nat \<Rightarrow> nat" where
  "lower_cp c = (if 65 \<le> c \<and> c \<le> 90 then c + 32 else c)"

definition lower :: "pystr \<Rightarrow> pystr" where
  "lower s = map lower_cp s"

subsection \<open>\<open>int(value)\<close> on bytes and \<open>str(n).encode("latin-1")\<close>\<close>

text \<open>
  \<open>int(b)\<close> in base 10: ASCII whitespace is stripped on both sides, one sign is
  allowed, then decimal digits, where single underscores may sit between two digits.
  Anything else raises \<open>ValueError\<close>, and so does a literal with more digits than
  the interpreter's limit for conversions between \<open>int\<close> and \<open>str\<close>, which is 4300
  unless the interpreter is configured otherwise. \<open>str(n)\<close> raises \<open>ValueError\<close> under
  the same limit.
\<close>

definition max_str_digits :: nat where
  "max_str_digits = 4300"

definition is_space :: "char \<Rightarrow> bool" where
  "is_space c = (let n = (of_char c :: nat) in n = 32 \<or> (9 \<le> n \<and> n \<le> 13))"

definition is_digit :: "char \<Rightarrow> bool" where
  "is_digit c = (let n = (of_char c :: nat) in 48 \<le> n \<and> n \<le> 57)"

definition digit_val :: "char \<Rightarrow> nat" where
  "digit_val c = of_char c - 48"

definition digit_char :: "nat \<Rightarrow> char" where
  "digit_char n = char_of (48 + n)"

fun parse_digits :: "bytes \<Rightarrow> nat \<Rightarrow> nat option" where
  "parse_digits [] acc = Some acc"
| "parse_digits (c # cs) acc =
     (if is_digit c then parse_digits cs (10 * acc + digit_val c)
      else if c = CHR ''_'' then
        (case cs of
           [] \<Rightarrow> None
         | d # ds \<Rightarrow> if is_digit d then parse_digits cs acc else None)
      else None)"

definition strip :: "bytes \<Rightarrow> bytes" where
  "strip b = rev (dropWhile is_space (rev (dropWhile is_space b)))"

definition unsigned_int_of_bytes :: "bytes \<Rightarrow> error + nat" where
  "unsigned_int_of_bytes u =
     (case u of
        [] \<Rightarrow> Inl ValueError
      | c # cs \<Rightarrow>
          if is_digit c then
            (case parse_digits u 0 of
               None \<Rightarrow> Inl ValueError
             | Some n \<Rightarrow>
                 if length (filter is_digit u) > max_str_digits then Inl ValueError
                 else Inr n)
          else Inl ValueError)"

definition int_of_bytes :: "bytes \<Rightarrow> error + int" where
  "int_of_bytes b =
     (case strip b of
        [] \<Rightarrow> Inl ValueError
      | c # cs \<Rightarrow>
          if c = CHR ''-'' then
            (case unsigned_int_of_bytes cs of Inl e \<Rightarrow> Inl e | Inr n \<Rightarrow> Inr (- int n))
          else if c = CHR ''+'' then
            (case unsigned_int_of_bytes cs of Inl e \<Rightarrow> Inl e | Inr n \<Rightarrow> Inr (int n))
          else
            (case unsigned_int_of_bytes (c # cs) of Inl e \<Rightarrow> Inl e | Inr n \<Rightarrow> Inr (int n)))"

fun digits_of :: "nat \<Rightarrow> bytes" where
  "digits_of n =
     (if n < 10 then [digit_char n]
      else digits_of (n div 10) @ [digit_char (n mod 10)])"

declare digits_of.simps [simp del]

text \<open>
  \<open>str(n).encode("latin-1")\<close>: the decimal digits, with a minus sign when negative;
  \<open>ValueError\<close> when there are more digits than the limit.
\<close>

definition str_of_int :: "int \<Rightarrow> error + bytes" where
  "str_of_int i =
     (let ds = digits_of (nat \<bar>i\<bar>) in
        if length ds > max_str_digits then Inl ValueError
        else Inr (if i < 0 then CHR ''-'' # ds else ds))"

subsection \<open>\<open>sub in body\<close> and \<open>body.replace(old, new, 1)\<close>\<close>

fun contains :: "bytes \<Rightarrow> bytes \<Rightarrow> bool" where
  "contains sub [] = (sub = [])"
| "contains sub (b # bs) = (take (length sub) (b # bs) = sub \<or> contains sub bs)"

fun replace1 :: "bytes \<Rightarrow> bytes \<Rightarrow> bytes \<Rightarrow> bytes" where
  "replace1 old new [] = (if old = [] then new else [])"
| "replace1 old new (b # bs) =
     (if take (length old) (b # bs) = old then new @ drop (length old) (b # bs)
      else b # replace1 old new bs)"

section \<open>ASGI events and \<open>_add_to_content_length\<close>\<close>

text \<open>
  An \<open>http.response.start\<close> event carries a status and, optionally, the header list;
  an \<open>http.response.body\<close> event carries, both optionally, the chunk and the
  \<open>more_body\<close> flag. Reading a missing key with \<open>event["..."]\<close> raises \<open>KeyError\<close>.
\<close>

type_synonym header = "bytes \<times> bytes"

record response_start_event =
  status :: nat
  headers :: "header list option"

datatype event =
    HTTPResponseStart response_start_event
  | HTTPResponseBody "bytes option" "bool option"
  | OtherEvent pystr

text \<open>
  The list comprehension of \<open>_add_to_content_length\<close>, element by element: the
  condition decodes and lower-cases the name, and only for a Content-Length header is
  the value parsed. The first exception ends the comprehension.
\<close>

fun add_offset :: "header list \<Rightarrow> int \<Rightarrow> error + header list" where
  "add_offset [] offset = Inr []"
| "add_offset ((name, value) # hs) offset =
     (case decode_ascii name of
        Inl e \<Rightarrow> Inl e
      | Inr s \<Rightarrow>
          (case (if lower s = str_lit ''content-length''
                 then (case int_of_bytes value of
                         Inl e \<Rightarrow> Inl e
                       | Inr n \<Rightarrow>
                           (case str_of_int (n + offset) of
                              Inl e \<Rightarrow> Inl e
                            | Inr v \<Rightarrow> Inr (name, v)))
                 else Inr (name, value)) of
             Inl e \<Rightarrow> Inl e
           | Inr h \<Rightarrow>
               (case add_offset hs offset of
                  Inl e \<Rightarrow> Inl e
                | Inr hs' \<Rightarrow> Inr (h # hs'))))"

definition add_to_content_length ::
  "response_start_event \<Rightarrow> int \<Rightarrow> error + response_start_event" where
  "add_to_content_length ev offset =
     (case headers ev of
        None \<Rightarrow> Inl KeyError
      | Some hs \<Rightarrow>
          (case add_offset hs offset of
             Inl e \<Rightarrow> Inl e
           | Inr hs' \<Rightarrow> Inr (ev\<lparr>headers := Some hs'\<rparr>)))"

section \<open>\<open>ResponseMangler\<close>\<close>

record ResponseMangler =
  is_done :: bool
  response_start :: "response_start_event option"
  body :: bytes

definition ResponseMangler_init :: ResponseMangler where
  "ResponseMangler_init = \<lparr>is_done = False, response_start = None, body = []\<rparr>"

text \<open>
  \<open>ResponseMangler.send\<close>. The result is the object after the call, the events handed
  to the downstream \<open>_send\<close> during the call, and the exception raised, if any. Every
  \<open>raise\<close> of the method happens before its first downstream call, and the
  assignments made before a \<open>raise\<close> stay.
\<close>

definition send ::
  "(bytes \<Rightarrow> bytes \<times> bool) \<Rightarrow> ResponseMangler \<Rightarrow> event
     \<Rightarrow> ResponseMangler \<times> event list \<times> error option" where
  "send mangler self ev =
     (if is_done self then (self, [ev], None)
      else
        (case ev of
           HTTPResponseStart s \<Rightarrow> (self\<lparr>response_start := Some s\<rparr>, [], None)
         | OtherEvent t \<Rightarrow> (self, [], None)
         | HTTPResponseBody chunk mb \<Rightarrow>
             (case response_start self of
                None \<Rightarrow> (self, [], Some AssertionError)
              | Some rs \<Rightarrow>
                  (case chunk of
                     None \<Rightarrow> (self, [], Some KeyError)
                   | Some c \<Rightarrow>
                       (let body1 = body self @ c;
                            old_len = length body1;
                            (body2, dn) = mangler body1;
                            new_len = length body2
                        in
                          (case (if new_len \<noteq> old_len
                                 then add_to_content_length rs (int new_len - int old_len)
                                 else Inr rs) of
                             Inl e \<Rightarrow> (self\<lparr>body := body2\<rparr>, [], Some e)
                           | Inr rs' \<Rightarrow>
                               (let more_body = (case mb of None \<Rightarrow> False | Some m \<Rightarrow> m)
                                in
                                  if dn \<or> \<not> more_body then
                                    (self\<lparr>is_done := True, response_start := None, body := []\<rparr>,
                                     [HTTPResponseStart rs',
                                      HTTPResponseBody (Some body2) (Some more_body)],
                                     None)
                                  else
                                    (self\<lparr>response_start := Some rs', body := body2\<rparr>,
                                     [], None))))))))"

text \<open>
  The application calls \<open>send\<close> once per event, in order; an exception ends the
  sequence. The downstream events of all calls are collected.
\<close>

fun run ::
  "(bytes \<Rightarrow> bytes \<times> bool) \<Rightarrow> ResponseMangler \<Rightarrow> event list
     \<Rightarrow> ResponseMangler \<times> event list \<times> error option" where
  "run mangler self [] = (self, [], None)"
| "run mangler self (ev # evs) =
     (case send mangler self ev of
        (self', out, Some e) \<Rightarrow> (self', out, Some e)
      | (self', out, None) \<Rightarrow>
          (case run mangler self' evs of
             (self'', out', r) \<Rightarrow> (self'', out @ out', r)))"

section \<open>\<open>InjectAutoreloadMiddleware\<close>\<close>

definition marker :: bytes where
  "marker = ''</head>''"

text \<open>\<open>mangle_callback\<close>, with \<open>self.script\<close> as its first argument.\<close>

definition mangle_callback :: "bytes \<Rightarrow> bytes \<Rightarrow> bytes \<times> bool" where
  "mangle_callback script b =
     (if contains marker b then (replace1 marker script b, True) else (b, False))"

text \<open>\<open>html.escape(s)\<close> with its default \<open>quote=True\<close>, code point by code point.\<close>

definition escape_cp :: "nat \<Rightarrow> pystr" where
  "escape_cp c =
     (if c = 38 then str_lit ''&amp;''
      else if c = 60 then str_lit ''&lt;''
      else if c = 62 then str_lit ''&gt;''
      else if c = 34 then str_lit ''&quot;''
      else if c = 39 then str_lit ''&#x27;''
      else [c])"

definition html_escape :: "pystr \<Rightarrow> pystr" where
  "html_escape s = concat (map escape_cp s)"

text \<open>
  \<open>autoreload_url\<close>. The value of the environment variable \<open>SHINY_AUTORELOAD_PORT\<close>
  (\<open>None\<close> when unset) and the function \<open>get_proxy_url\<close> of \<open>_hostenv\<close> are
  parameters. \<open>get_proxy_url\<close> belongs to another module: it returns a URL or
  raises, and what it raises goes through \<open>autoreload_url\<close> to the caller.
\<close>

definition autoreload_url ::
  "(pystr \<Rightarrow> error + pystr) \<Rightarrow> pystr option \<Rightarrow> error + pystr option" where
  "autoreload_url get_proxy_url port =
     (case port of
        None \<Rightarrow> Inr None
      | Some p \<Rightarrow>
          if p = [] then Inr None
          else
            (case get_proxy_url (str_lit ''ws://127.0.0.1:'' @ p @ str_lit ''/autoreload'') of
               Inl e \<Rightarrow> Inl e
             | Inr u \<Rightarrow> Inr (Some u)))"

text \<open>The two constant parts of the f-string that builds \<open>self.script\<close>.\<close>

definition script_head :: pystr where
  "script_head =
     str_lit ''  <script src='' @ [34] @ str_lit ''__shared/shiny-autoreload.js'' @ [34]
       @ str_lit '' data-ws-url='' @ [34]"

definition script_tail :: pystr where
  "script_tail = [34] @ str_lit ''></script>'' @ [10] @ str_lit ''</head>''"

record 'a InjectAutoreloadMiddleware =
  app :: 'a
  script :: bytes

text \<open>
  \<open>InjectAutoreloadMiddleware.__init__\<close>, with the extra positional and keyword
  arguments as lists.
\<close>

definition InjectAutoreloadMiddleware_init ::
  "(pystr \<Rightarrow> error + pystr) \<Rightarrow> pystr option \<Rightarrow> 'a \<Rightarrow> 'b list \<Rightarrow> (pystr \<times> 'b) list
     \<Rightarrow> error + 'a InjectAutoreloadMiddleware" where
  "InjectAutoreloadMiddleware_init get_proxy_url port a args kwargs =
     (if length args > 0 \<or> length kwargs > 0 then Inl TypeError
      else
        (case autoreload_url get_proxy_url port of
           Inl e \<Rightarrow> Inl e
         | Inr ws_url \<Rightarrow>
             (case (case ws_url of
                      None \<Rightarrow> Inr []
                    | Some u \<Rightarrow>
                        if u \<noteq> [] then encode_ascii (script_head @ html_escape u @ script_tail)
                        else Inr []) of
                Inl e \<Rightarrow> Inl e
              | Inr s \<Rightarrow> Inr \<lparr>app = a, script = s\<rparr>)))"

record scope =
  scope_type :: pystr
  scope_path :: pystr

text \<open>
  \<open>InjectAutoreloadMiddleware.__call__\<close> hands the wrapped application either the
  \<open>send\<close> callable it was given, or the \<open>send\<close> method of a new \<open>ResponseMangler\<close>
  around it, whose rewrite function is \<open>mangle_callback\<close> with \<open>self.script\<close>.
\<close>

datatype send_callable = DownstreamSend | ManglerSend bytes

definition InjectAutoreloadMiddleware_call ::
  "'a InjectAutoreloadMiddleware \<Rightarrow> scope \<Rightarrow> send_callable" where
  "InjectAutoreloadMiddleware_call self sc =
     (if scope_type sc \<noteq> str_lit ''http'' then DownstreamSend
      else if scope_path sc \<noteq> str_lit ''/'' \<or> length (script self) = 0 then DownstreamSend
      else ManglerSend (script self))"

section \<open>The reload server of \<open>_coro_main\<close>\<close>

text \<open>
  The calls a coroutine makes on the browser, on the event \<open>reload_now\<close> and on its
  connection are recorded in order.
\<close>

datatype effect =
    WebbrowserOpen pystr nat
  | EventSet
  | EventClear
  | EventWait
  | ConnSend pystr
  | ConnRecv

text \<open>The only variable \<open>nudge\<close> assigns is the nonlocal \<open>launch_browser\<close>.\<close>

record server_state =
  launch_browser :: bool

definition nudge :: "pystr \<Rightarrow> server_state \<Rightarrow> server_state \<times> effect list" where
  "nudge app_url st =
     (if launch_browser st
      then (st\<lparr>launch_browser := False\<rparr>, [WebbrowserOpen app_url 1, EventSet, EventClear])
      else (st, [EventSet, EventClear]))"

text \<open>A sequence of invocations of \<open>nudge\<close>, each on the state the previous one left.\<close>

fun nudges :: "pystr \<Rightarrow> server_state \<Rightarrow> nat \<Rightarrow> server_state \<times> effect list list" where
  "nudges app_url st 0 = (st, [])"
| "nudges app_url st (Suc n) =
     (case nudge app_url st of
        (st', effs) \<Rightarrow>
          (case nudges app_url st' n of (st'', rest) \<Rightarrow> (st'', effs # rest)))"

text \<open>
  The \<open>Headers\<close> of the \<open>websockets\<close> library are the header lines of the request,
  in order. A lookup compares names without regard to letter case (header names are
  ASCII). \<open>headers.get(key, default)\<close> gives the default (\<open>None\<close> or a string) when
  no line has the name, the value when one line has it, and raises
  \<open>MultipleValuesError\<close> when several have it.
\<close>

type_synonym ws_headers = "(pystr \<times> pystr) list"

definition get_all :: "ws_headers \<Rightarrow> pystr \<Rightarrow> pystr list" where
  "get_all hs key = map snd (filter (\<lambda>(name, value). lower name = lower key) hs)"

definition headers_get :: "ws_headers \<Rightarrow> pystr \<Rightarrow> pystr option \<Rightarrow> error + pystr option" where
  "headers_get hs key dflt =
     (case get_all hs key of
        [] \<Rightarrow> Inr dflt
      | [v] \<Rightarrow> Inr (Some v)
      | v # v' # vs \<Rightarrow> Inl MultipleValuesError)"

text \<open>
  A request: its path and its headers. A connection: its request, and the messages
  the peer sends before it closes (\<open>recv\<close> on a closed connection raises
  \<open>ConnectionClosed\<close>).
\<close>

datatype ws_data = Text pystr | Binary bytes

record request =
  path :: pystr
  request_headers :: ws_headers

record connection =
  conn_request :: "request option"
  inbox :: "ws_data list"

datatype outcome = Returned | Raised error | Suspended

text \<open>
  The loop of the \<open>/autoreload\<close> branch. Each element of the list is one pulse of
  \<open>reload_now\<close> that wakes the handler, and says whether the \<open>conn.send\<close> that
  follows succeeds or raises \<open>ConnectionClosed\<close> (which the handler catches). With
  no pulse left the handler stays suspended in \<open>wait\<close>.
\<close>

fun autoreload_loop :: "bool list \<Rightarrow> effect list \<times> outcome" where
  "autoreload_loop [] = ([EventWait], Suspended)"
| "autoreload_loop (ok # rest) =
     (if ok then
        (case autoreload_loop rest of
           (effs, r) \<Rightarrow> (EventWait # ConnSend (str_lit ''autoreload'') # effs, r))
      else ([EventWait, ConnSend (str_lit ''autoreload'')], Returned))"

definition reload_server ::
  "pystr \<Rightarrow> pystr \<Rightarrow> server_state \<Rightarrow> connection \<Rightarrow> bool list
     \<Rightarrow> server_state \<times> effect list \<times> outcome" where
  "reload_server app_url secret st conn pulses =
     (case conn_request conn of
        None \<Rightarrow> (st, [], Raised RuntimeError)
      | Some rq \<Rightarrow>
          if path rq = str_lit ''/autoreload'' then
            (case autoreload_loop pulses of (effs, r) \<Rightarrow> (st, effs, r))
          else if path rq = str_lit ''/notify'' then
            (case headers_get (request_headers rq) (str_lit ''Shiny-Autoreload-Secret'')
                    (Some []) of
               Inl e \<Rightarrow> (st, [], Raised e)
             | Inr req_secret \<Rightarrow>
                 if req_secret \<noteq> Some secret then (st, [], Returned)
                 else
                   (case inbox conn of
                      [] \<Rightarrow> (st, [ConnRecv], Returned)
                    | data # later \<Rightarrow>
                        if data = Text (str_lit ''reload_end'') then
                          (case nudge app_url st of
                             (st', effs) \<Rightarrow> (st', ConnRecv # effs, Returned))
                        else (st, [ConnRecv], Returned)))
          else (st, [], Returned))"

record response =
  status_code :: nat
  reason_phrase :: pystr
  response_headers :: "(pystr \<times> pystr) list"

text \<open>
  \<open>process_request\<close>; \<open>http.HTTPStatus.MOVED_PERMANENTLY\<close> is 301. What \<open>headers.get\<close>
  raises is not caught.
\<close>

definition process_request ::
  "pystr \<Rightarrow> connection \<Rightarrow> request \<Rightarrow> error + response option" where
  "process_request app_url conn rq =
     (case headers_get (request_headers rq) (str_lit ''Upgrade'') None of
        Inl e \<Rightarrow> Inl e
      | Inr None \<Rightarrow>
          Inr (Some \<lparr>status_code = 301,
                     reason_phrase = str_lit ''Moved Permanently'',
                     response_headers = [(str_lit ''Location'', app_url)]\<rparr>)
      | Inr (Some u) \<Rightarrow> Inr None)"

section \<open>Responses as the application sends them, and what the sink sees\<close>

text \<open>
  A response body delivered in chunks: every body event but the last has
  \<open>more_body = True\<close>, the last has \<open>more_body = False\<close>.
\<close>

fun body_events :: "bytes list \<Rightarrow> event list" where
  "body_events [] = []"
| "body_events [c] = [HTTPResponseBody (Some c) (Some False)]"
| "body_events (c # c' # cs) = HTTPResponseBody (Some c) (Some True) # body_events (c' # cs)"

fun is_body :: "event \<Rightarrow> bool" where
  "is_body (HTTPResponseBody c mb) = True"
| "is_body ev = False"

text \<open>The body bytes a list of events carries, in order.\<close>

fun body_bytes :: "event list \<Rightarrow> bytes" where
  "body_bytes [] = []"
| "body_bytes (HTTPResponseBody (Some c) mb # evs) = c @ body_bytes evs"
| "body_bytes (ev # evs) = body_bytes evs"

text \<open>
  What a client gets from a run: the events that are not body events, the body bytes,
  and the exception, if the run ended with one.
\<close>

fun final_output ::
  "ResponseMangler \<times> event list \<times> error option \<Rightarrow> event list \<times> bytes \<times> error option" where
  "final_output (self, out, r) = (filter (\<lambda>ev. \<not> is_body ev) out, body_bytes out, r)"

text \<open>The sink has received one start event, then body events only, at least one.\<close>

fun start_then_bodies :: "event list \<Rightarrow> bool" where
  "start_then_bodies (HTTPResponseStart s # evs) = (evs \<noteq> [] \<and> list_all is_body evs)"
| "start_then_bodies evs = False"

text \<open>The header names that \<open>_add_to_content_length\<close> takes for Content-Length.\<close>

definition is_content_length :: "bytes \<Rightarrow> bool" where
  "is_content_length name =
     (case decode_ascii name of
        Inl e \<Rightarrow> False
      | Inr s \<Rightarrow> lower s = str_lit ''content-length'')"

text \<open>
  A header list declares Content-Length \<open>n\<close>: it has a Content-Length header, and
  the value of each one reads as \<open>n\<close>.
\<close>

definition declares_content_length :: "header list \<Rightarrow> int \<Rightarrow> bool" where
  "declares_content_length hs n =
     (list_ex (\<lambda>(name, value). is_content_length name) hs \<and>
      list_all (\<lambda>(name, value). is_content_length name \<longrightarrow> int_of_bytes value = Inr n) hs)"

text \<open>Header names are ASCII, as HTTP field names are.\<close>

definition ascii_names :: "header list \<Rightarrow> bool" where
  "ascii_names hs = list_all (\<lambda>(name, value). is_ascii name) hs"


text \<open>The object after a flush, and while it buffers.\<close>

definition flushed :: ResponseMangler where
  "flushed = \<lparr>is_done = True, response_start = None, body = []\<rparr>"

definition buffering :: "response_start_event \<Rightarrow> bytes \<Rightarrow> ResponseMangler" where
  "buffering rs acc = \<lparr>is_done = False, response_start = Some rs, body = acc\<rparr>"

text \<open>
  The start event the rewriter sends once \<open>mangle_callback\<close> has replaced the marker:
  the buffered one, through \<open>_add_to_content_length\<close> when the replacement changed the
  length of the body.
\<close>

definition corrected_start :: "bytes \<Rightarrow> response_start_event \<Rightarrow> error + response_start_event" where
  "corrected_start scr rs =
     (if length scr \<noteq> length marker
      then add_to_content_length rs (int (length scr) - int (length marker))
      else Inr rs)"


section \<open>Searching and replacing in bytes\<close>

lemma take_eq_length: "take (length old) ys = old \<Longrightarrow> length old \<le> length ys"
  by (drule arg_cong[where f = length]) simp

lemma take_Cons_append:
  "n \<le> length (x # xs) \<Longrightarrow> take n (x # xs @ ys) = take n (x # xs)"
  using take_append[of n "x # xs" ys] by simp

lemma drop_Cons_append:
  "n \<le> length (x # xs) \<Longrightarrow> drop n (x # xs @ ys) = drop n (x # xs) @ ys"
  using drop_append[of n "x # xs" ys] by simp

lemma contains_length: "contains old xs \<Longrightarrow> length old \<le> length xs"
proof (induction xs)
  case Nil
  then show ?case by simp
next
  case (Cons x xs)
  then show ?case using take_eq_length[of old "x # xs"] by auto
qed

lemma contains_append: "contains old xs \<Longrightarrow> contains old (xs @ ys)"
proof (induction xs)
  case Nil
  then show ?case by (cases ys) auto
next
  case (Cons x xs)
  show ?case
  proof (cases "take (length old) (x # xs) = old")
    case True
    then have "length old \<le> length (x # xs)" by (rule take_eq_length)
    with True show ?thesis by (simp only: append_Cons contains.simps take_Cons_append simp_thms)
  next
    case False
    with Cons show ?thesis by simp
  qed
qed

lemma replace1_append:
  "contains old xs \<Longrightarrow> replace1 old new (xs @ ys) = replace1 old new xs @ ys"
proof (induction xs)
  case Nil
  then show ?case by (cases ys) auto
next
  case (Cons x xs)
  show ?case
  proof (cases "take (length old) (x # xs) = old")
    case True
    then have "length old \<le> length (x # xs)"
      by (rule take_eq_length)
    with True show ?thesis
      by (simp only: append_Cons replace1.simps take_Cons_append drop_Cons_append if_True
          append_assoc simp_thms)
  next
    case False
    with Cons.prems have c: "contains old xs" by simp
    then have "length old \<le> length xs" by (rule contains_length)
    then have "take (length old) (x # xs @ ys) = take (length old) (x # xs)"
      by (simp add: take_Cons_append)
    with False c Cons.IH show ?thesis by simp
  qed
qed

lemma replace1_length:
  "contains old xs \<Longrightarrow> length (replace1 old new xs) + length old = length xs + length new"
proof (induction xs)
  case Nil
  then show ?case by simp
next
  case (Cons x xs)
  show ?case
  proof (cases "take (length old) (x # xs) = old")
    case True
    then have "length old \<le> length (x # xs)"
      by (rule take_eq_length)
    with True show ?thesis by simp
  next
    case False
    with Cons show ?thesis by simp
  qed
qed

lemma contains_prefix: "contains old (old @ post)"
proof (cases "old @ post")
  case Nil
  then show ?thesis by simp
next
  case (Cons a list)
  have "take (length old) (old @ post) = old" by simp
  then show ?thesis unfolding Cons by simp
qed

lemma contains_at: "contains old (pre @ old @ post)"
proof (induction pre)
  case Nil
  then show ?case by (simp add: contains_prefix)
next
  case (Cons a pre)
  then show ?case by simp
qed


section \<open>Decimal bytes and integers\<close>



lemma digit_not_space: "is_digit c \<Longrightarrow> \<not> is_space c"
  by (auto simp add: is_digit_def is_space_def Let_def)

lemma digit_not_sign: "is_digit c \<Longrightarrow> c \<noteq> CHR ''-'' \<and> c \<noteq> CHR ''+''"
  by (auto simp add: is_digit_def Let_def)



lemma parse_digits_all:
  "list_all is_digit ds \<Longrightarrow>
   parse_digits ds acc = Some (foldl (\<lambda>a c. 10 * a + digit_val c) acc ds)"
  by (induction ds arbitrary: acc) auto


lemma filter_digits: "list_all is_digit ds \<Longrightarrow> filter is_digit ds = ds"
  by (induction ds) auto


lemma strip_no_space:
  assumes "b \<noteq> []" "\<not> is_space (hd b)" "\<not> is_space (last b)"
  shows "strip b = b"
proof -
  from assms have "dropWhile is_space b = b" by (cases b) auto
  moreover from assms have "dropWhile is_space (rev b) = rev b"
    by (cases "rev b") (auto simp: last_rev[symmetric] simp del: last_rev)
  ultimately show ?thesis by (simp add: strip_def)
qed




lemma int_of_bytes_over_limit:
  assumes "list_all is_digit ds" and "length ds > max_str_digits"
  shows "int_of_bytes ds = Inl ValueError"
proof -
  from assms(2) obtain c cs where eq: "ds = c # cs" by (cases ds) auto
  from assms(1) have c: "is_digit c" by (simp add: eq)
  then have ns: "c \<noteq> CHR ''-''" "c \<noteq> CHR ''+''" using digit_not_sign by auto
  have "last ds \<in> set ds" using eq by simp
  with assms(1) have "is_digit (last ds)" by (simp add: list_all_iff)
  with c have "strip ds = ds"
    by (intro strip_no_space) (simp_all add: eq digit_not_space del: last.simps)
  moreover have "unsigned_int_of_bytes (c # cs) = Inl ValueError"
    unfolding unsigned_int_of_bytes_def
    using c parse_digits_all[OF assms(1), of 0] filter_digits[OF assms(1)] assms(2)
    by (simp add: eq)
  ultimately show ?thesis using ns
    by (simp add: int_of_bytes_def eq)
qed

lemma str_of_int_over_limit:
  "length (digits_of (nat \<bar>i\<bar>)) > max_str_digits \<Longrightarrow> str_of_int i = Inl ValueError"
  by (simp add: str_of_int_def)



lemma add_offset_over_limit:
  assumes "ascii_names hs"
    and "list_ex (\<lambda>(name, value). is_content_length name) hs"
    and "list_all (\<lambda>(name, value). is_content_length name \<longrightarrow> int_of_bytes value = Inr n) hs"
    and "str_of_int (n + offset) = Inl e"
  shows "add_offset hs offset = Inl e"
  using assms(1,2,3)
proof (induction hs)
  case Nil
  then show ?case by simp
next
  case (Cons h hs)
  obtain name val where h: "h = (name, val)" by (cases h)
  from Cons.prems have a: "is_ascii name" and rest: "ascii_names hs"
    by (simp_all add: ascii_names_def h)
  from a have dec: "decode_ascii name = Inr (map of_char name)"
    by (simp add: decode_ascii_def)
  show ?case
  proof (cases "is_content_length name")
    case True
    with dec have "lower (map of_char name) = str_lit ''content-length''"
      by (simp add: is_content_length_def)
    moreover from True Cons.prems(3) have "int_of_bytes val = Inr n"
      by (simp add: h)
    ultimately show ?thesis using dec assms(4)
      by (simp add: h)
  next
    case False
    with dec have "lower (map of_char name) \<noteq> str_lit ''content-length''"
      by (simp add: is_content_length_def)
    moreover from False Cons.prems have "add_offset hs offset = Inl e"
      using Cons.IH rest by (simp add: h)
    ultimately show ?thesis using dec
      by (simp add: h)
  qed
qed




section \<open>Runs of the rewriter\<close>

lemma send_done: "is_done m \<Longrightarrow> send f m ev = (m, [ev], None)"
  by (simp add: send_def)

lemma run_done: "is_done m \<Longrightarrow> run f m evs = (m, evs, None)"
  by (induction evs) (simp_all add: send_done)

lemma run_flushed: "run f flushed evs = (flushed, evs, None)"
  by (rule run_done) (simp add: flushed_def)

lemma send_start_fresh:
  "send f ResponseMangler_init (HTTPResponseStart rs) = (buffering rs [], [], None)"
  by (simp add: send_def ResponseMangler_init_def buffering_def)

lemma send_no_marker_more:
  "\<not> contains marker (acc @ c) \<Longrightarrow>
   send (mangle_callback scr) (buffering rs acc) (HTTPResponseBody (Some c) (Some True))
     = (buffering rs (acc @ c), [], None)"
  by (simp add: send_def buffering_def mangle_callback_def)

lemma send_no_marker_last:
  "\<not> contains marker (acc @ c) \<Longrightarrow>
   send (mangle_callback scr) (buffering rs acc) (HTTPResponseBody (Some c) (Some False))
     = (flushed, [HTTPResponseStart rs, HTTPResponseBody (Some (acc @ c)) (Some False)], None)"
  by (simp add: send_def buffering_def mangle_callback_def flushed_def)

lemma replace1_marker_length:
  assumes "contains marker b"
  shows "int (length (replace1 marker scr b)) - int (length b)
           = int (length scr) - int (length marker)"
    and "length (replace1 marker scr b) \<noteq> length b \<longleftrightarrow> length scr \<noteq> length marker"
  using replace1_length[OF assms, of scr] by auto

lemma send_marker:
  assumes "contains marker (acc @ c)"
  shows "send (mangle_callback scr) (buffering rs acc) (HTTPResponseBody (Some c) (Some mb))
     = (case corrected_start scr rs of
          Inl e \<Rightarrow> (buffering rs (replace1 marker scr (acc @ c)), [], Some e)
        | Inr rs' \<Rightarrow>
            (flushed,
             [HTTPResponseStart rs',
              HTTPResponseBody (Some (replace1 marker scr (acc @ c))) (Some mb)], None))"
  using assms replace1_marker_length[OF assms, of scr]
  by (simp add: send_def buffering_def mangle_callback_def flushed_def corrected_start_def
      split: sum.splits)

lemma body_events_all_bodies: "list_all is_body (body_events cs)"
  by (induction cs rule: body_events.induct) simp_all

lemma body_bytes_body_events: "body_bytes (body_events cs) = concat cs"
  by (induction cs rule: body_events.induct) simp_all

lemma run_no_marker:
  assumes "cs \<noteq> []" and "\<not> contains marker (acc @ concat cs)"
  shows "run (mangle_callback scr) (buffering rs acc) (body_events cs)
     = (flushed, [HTTPResponseStart rs, HTTPResponseBody (Some (acc @ concat cs)) (Some False)],
        None)"
  using assms
proof (induction cs arbitrary: acc rule: body_events.induct)
  case 1
  then show ?case by simp
next
  case (2 c)
  then show ?case by (simp add: send_no_marker_last)
next
  case (3 c c' cs)
  from "3.prems"(2) have nc: "\<not> contains marker (acc @ c)"
    using contains_append[of marker "acc @ c" "concat (c' # cs)"] by auto
  have "\<not> contains marker ((acc @ c) @ concat (c' # cs))" using "3.prems"(2) by simp
  from "3.IH"[OF _ this] show ?case
    by (simp add: send_no_marker_more[OF nc])
qed

lemma run_marker_ok:
  assumes "\<not> contains marker acc" and "contains marker (acc @ concat cs)"
    and "corrected_start scr rs = Inr rs'"
  shows "\<exists>bodies. run (mangle_callback scr) (buffering rs acc) (body_events cs)
             = (flushed, HTTPResponseStart rs' # bodies, None)
           \<and> bodies \<noteq> [] \<and> list_all is_body bodies
           \<and> body_bytes bodies = replace1 marker scr (acc @ concat cs)"
  using assms(1,2)
proof (induction cs arbitrary: acc rule: body_events.induct)
  case 1
  then show ?case by simp
next
  case (2 c)
  then have "contains marker (acc @ c)" by simp
  from send_marker[OF this, of scr rs False] assms(3) show ?case by simp
next
  case (3 c c' cs)
  show ?case
  proof (cases "contains marker (acc @ c)")
    case True
    from send_marker[OF True, of scr rs True] assms(3)
    have "run (mangle_callback scr) (buffering rs acc) (body_events (c # c' # cs))
        = (flushed,
           HTTPResponseStart rs' #
             HTTPResponseBody (Some (replace1 marker scr (acc @ c))) (Some True) #
             body_events (c' # cs), None)"
      by (simp add: run_flushed)
    moreover have "replace1 marker scr (acc @ c) @ concat (c' # cs)
        = replace1 marker scr (acc @ concat (c # c' # cs))"
      using replace1_append[OF True, of scr "concat (c' # cs)"] by simp
    ultimately show ?thesis
      using body_events_all_bodies[of "c' # cs"] body_bytes_body_events[of "c' # cs"]
      by (simp del: body_events.simps concat.simps)
  next
    case False
    from "3.prems"(2) have "contains marker ((acc @ c) @ concat (c' # cs))" by simp
    from "3.IH"[OF False this] show ?thesis
      by (simp add: send_no_marker_more[OF False])
  qed
qed

lemma run_marker_err:
  assumes "\<not> contains marker acc" and "contains marker (acc @ concat cs)"
    and "corrected_start scr rs = Inl e"
  shows "\<exists>m. run (mangle_callback scr) (buffering rs acc) (body_events cs) = (m, [], Some e)"
  using assms(1,2)
proof (induction cs arbitrary: acc rule: body_events.induct)
  case 1
  then show ?case by simp
next
  case (2 c)
  then have "contains marker (acc @ c)" by simp
  from send_marker[OF this, of scr rs False] assms(3) show ?case by simp
next
  case (3 c c' cs)
  show ?case
  proof (cases "contains marker (acc @ c)")
    case True
    from send_marker[OF True, of scr rs True] assms(3) show ?thesis by simp
  next
    case False
    from "3.prems"(2) have "contains marker ((acc @ c) @ concat (c' # cs))" by simp
    from "3.IH"[OF False this] show ?thesis
      by (simp add: send_no_marker_more[OF False])
  qed
qed



lemma not_body_filter: "list_all is_body bs \<Longrightarrow> filter (\<lambda>ev. \<not> is_body ev) bs = []"
  by (induction bs) auto

lemma marker_nonempty: "marker \<noteq> []"
  by (simp add: marker_def)


lemma send_body_cases:
  assumes "\<not> is_done m" and "response_start m = Some rs"
    and "send f m (HTTPResponseBody chunk mb) = (m', out, r)"
  shows "(out = [] \<and> \<not> is_done m' \<and> (r = None \<longrightarrow> response_start m' \<noteq> None))
       \<or> (r = None \<and> is_done m' \<and>
           (\<exists>rs' b mb'. out = [HTTPResponseStart rs', HTTPResponseBody b mb']))"
  using assms
  by (auto simp: send_def Let_def split: option.splits sum.splits prod.splits if_splits)

lemma run_buffering_invariant:
  assumes "list_all is_body bs" and "\<not> is_done m" and "response_start m \<noteq> None"
  shows "case run f m bs of
           (m', out, r) \<Rightarrow> if is_done m' then start_then_bodies out else out = []"
  using assms
proof (induction bs arbitrary: m)
  case Nil
  then show ?case by simp
next
  case (Cons ev bs)
  from Cons.prems(1) obtain chunk mb where ev: "ev = HTTPResponseBody chunk mb"
    by (cases ev) auto
  from Cons.prems(3) obtain rs where rs: "response_start m = Some rs" by auto
  obtain m' out r where s: "send f m (HTTPResponseBody chunk mb) = (m', out, r)"
    by (cases "send f m (HTTPResponseBody chunk mb)") auto
  from Cons.prems(1) have bodies: "list_all is_body bs" by simp
  from send_body_cases[OF Cons.prems(2) rs s]
  consider (buffer) "out = []" "\<not> is_done m'" "r = None" "response_start m' \<noteq> None"
    | (raise) e where "out = []" "\<not> is_done m'" "r = Some e"
    | (flush) rs' b mb' where "r = None" "is_done m'"
        "out = [HTTPResponseStart rs', HTTPResponseBody b mb']"
    by (cases r) auto
  then show ?case
  proof cases
    case buffer
    with Cons.IH[OF bodies buffer(2,4)] s show ?thesis
      by (auto simp: ev split: prod.splits)
  next
    case raise
    with s show ?thesis by (simp add: ev)
  next
    case flush
    with s bodies show ?thesis by (simp add: ev run_done)
  qed
qed

section \<open>The script tag\<close>

lemma str_lit_ascii_head: "list_all (\<lambda>c. c < 128) script_head"
  by (simp add: script_head_def str_lit_def)

lemma str_lit_ascii_tail: "list_all (\<lambda>c. c < 128) script_tail"
  by (simp add: script_tail_def str_lit_def)

lemma escape_cp_ascii: "list_all (\<lambda>c. c < 128) (escape_cp c) \<longleftrightarrow> c < 128"
  by (simp add: escape_cp_def str_lit_def)

lemma html_escape_ascii:
  "list_all (\<lambda>c. c < 128) (html_escape u) \<longleftrightarrow> list_all (\<lambda>c. c < 128) u"
  unfolding html_escape_def by (induction u) (simp_all add: escape_cp_ascii)

lemma encode_script:
  "encode_ascii (script_head @ html_escape u @ script_tail)
     = (if list_all (\<lambda>c. c < 128) u
        then Inr (map char_of (script_head @ html_escape u @ script_tail))
        else Inl UnicodeEncodeError)"
  by (simp add: encode_ascii_def str_lit_ascii_head str_lit_ascii_tail html_escape_ascii)

lemma notify_path_not_autoreload: "str_lit ''/notify'' \<noteq> str_lit ''/autoreload''"
  by (simp add: str_lit_def)

section \<open>Content-Length after the injection\<close>




text \<open>
  The limit on the digits is needed: when the script and the marker differ in length
  and the length of the rewritten body has more digits than the limit, \<open>str\<close> raises
  \<open>ValueError\<close> in \<open>_add_to_content_length\<close>, and nothing is sent.
\<close>

lemma content_length_over_limit:
  assumes "concat cs = pre @ marker @ post"
    and "headers rs = Some hs"
    and "ascii_names hs"
    and "declares_content_length hs (int (length (concat cs)))"
    and "length scr \<noteq> length marker"
    and "length (digits_of (length (pre @ scr @ post))) > max_str_digits"
  shows "\<exists>m. run (mangle_callback scr) ResponseMangler_init
               (HTTPResponseStart rs # body_events cs)
             = (m, [], Some ValueError)"
proof -
  let ?d = "int (length scr) - int (length marker)"
  have found: "contains marker ([] @ concat cs)"
    unfolding assms(1) by (simp add: contains_at)
  have new_len: "int (length (concat cs)) + ?d = int (length (pre @ scr @ post))"
    unfolding assms(1) by simp
  have "nat \<bar>int (length (pre @ scr @ post))\<bar> = length (pre @ scr @ post)"
    by (simp only: abs_of_nat nat_int)
  with assms(6) have "str_of_int (int (length (pre @ scr @ post))) = Inl ValueError"
    by (intro str_of_int_over_limit) (simp only:)
  then have "str_of_int (int (length (concat cs)) + ?d) = Inl ValueError"
    by (simp only: new_len)
  moreover from assms(4) have "list_ex (\<lambda>(name, value). is_content_length name) hs"
    and "list_all (\<lambda>(name, value). is_content_length name \<longrightarrow>
           int_of_bytes value = Inr (int (length (concat cs)))) hs"
    by (simp_all add: declares_content_length_def)
  ultimately have "add_offset hs ?d = Inl ValueError"
    using add_offset_over_limit[OF assms(3)] by blast
  with assms(2,5) have err: "corrected_start scr rs = Inl ValueError"
    by (simp add: corrected_start_def add_to_content_length_def)
  have "\<not> contains marker []" by (simp add: marker_nonempty)
  from run_marker_err[OF this found err] show ?thesis
    by (simp add: send_start_fresh)
qed

text \<open>
  An example with three chunks. The marker is cut across the first two; the flush
  happens at the second, and the third is passed along as it comes.
\<close>

lemma content_length_example:
  "run (mangle_callback ''<s></head>'') ResponseMangler_init
     (HTTPResponseStart \<lparr>status = 200, headers = Some [(''Content-Length'', ''9'')]\<rparr>
        # body_events [''a</he'', ''ad>b'', ''''])
     = (flushed,
        [HTTPResponseStart \<lparr>status = 200, headers = Some [(''Content-Length'', ''12'')]\<rparr>,
         HTTPResponseBody (Some ''a<s></head>b'') (Some True),
         HTTPResponseBody (Some '''') (Some False)],
        None)"
  by code_simp

section \<open>Chunk boundaries\<close>

text \<open>
  The sequences of downstream events are not the same: once the marker has been
  replaced the rewriter flushes, and the chunks that follow are passed along one by
  one. With the chunks \<open>a</head>\<close> and \<open>b\<close> the sink gets two body events; with the
  single chunk \<open>a</head>b\<close> it gets one.
\<close>

theorem chunking_counterexample:
  "fst (snd (run (mangle_callback ''<s></head>'') ResponseMangler_init
       (HTTPResponseStart \<lparr>status = 200, headers = Some [(''content-length'', ''9'')]\<rparr>
          # body_events [''a</head>'', ''b''])))
     = [HTTPResponseStart \<lparr>status = 200, headers = Some [(''content-length'', ''12'')]\<rparr>,
        HTTPResponseBody (Some ''a<s></head>'') (Some True),
        HTTPResponseBody (Some ''b'') (Some False)]
   \<and> fst (snd (run (mangle_callback ''<s></head>'') ResponseMangler_init
       (HTTPResponseStart \<lparr>status = 200, headers = Some [(''content-length'', ''9'')]\<rparr>
          # body_events [concat [''a</head>'', ''b'']])))
     = [HTTPResponseStart \<lparr>status = 200, headers = Some [(''content-length'', ''12'')]\<rparr>,
        HTTPResponseBody (Some ''a<s></head>b'') (Some False)]
   \<and> run (mangle_callback ''<s></head>'') ResponseMangler_init
       (HTTPResponseStart \<lparr>status = 200, headers = Some [(''content-length'', ''9'')]\<rparr>
          # body_events [''a</head>'', ''b''])
     \<noteq> run (mangle_callback ''<s></head>'') ResponseMangler_init
       (HTTPResponseStart \<lparr>status = 200, headers = Some [(''content-length'', ''9'')]\<rparr>
          # body_events [concat [''a</head>'', ''b'']])"
  by code_simp

text \<open>
  Claim C2, amended. However a body is split into chunks (at least one; the marker
  may be cut across chunks), the client gets the same as when the whole body comes as
  one chunk: the same events other than body events (the same corrected start event),
  the same total body bytes and the same exception, if any. The number of body events
  and their \<open>more_body\<close> flags may differ.
\<close>

theorem chunking_independent:
  assumes "cs \<noteq> []"
  shows "final_output
           (run (mangle_callback scr) ResponseMangler_init (HTTPResponseStart rs # body_events cs))
       = final_output
           (run (mangle_callback scr) ResponseMangler_init
              (HTTPResponseStart rs # body_events [concat cs]))"
proof -
  have ne: "\<not> contains marker []" by (simp add: marker_nonempty)
  have one: "concat [concat cs] = concat cs" by simp
  let ?run = "\<lambda>xs. run (mangle_callback scr) (buffering rs []) (body_events xs)"
  have "final_output (?run cs) = final_output (?run [concat cs])"
  proof (cases "contains marker (concat cs)")
    case False
    then have nc: "\<not> contains marker ([] @ concat cs)" by simp
    have nc1: "\<not> contains marker ([] @ concat [concat cs])" using False by simp
    have "?run cs = (flushed,
        [HTTPResponseStart rs, HTTPResponseBody (Some ([] @ concat cs)) (Some False)], None)"
      by (rule run_no_marker[OF assms nc])
    moreover have "?run [concat cs] = (flushed,
        [HTTPResponseStart rs, HTTPResponseBody (Some ([] @ concat [concat cs])) (Some False)],
        None)"
      by (rule run_no_marker[OF _ nc1]) simp
    ultimately show ?thesis by (simp del: body_events.simps)
  next
    case True
    then have c: "contains marker ([] @ concat cs)" by simp
    have c1: "contains marker ([] @ concat [concat cs])" using True by simp
    show ?thesis
    proof (cases "corrected_start scr rs")
      case (Inl e)
      from run_marker_err[OF ne c Inl] run_marker_err[OF ne c1 Inl] show ?thesis
        by (auto simp del: body_events.simps)
    next
      case (Inr rs')
      from run_marker_ok[OF ne c Inr] obtain bodies where
        r: "?run cs = (flushed, HTTPResponseStart rs' # bodies, None)"
        and b: "list_all is_body bodies" "body_bytes bodies = replace1 marker scr ([] @ concat cs)"
        by blast
      from run_marker_ok[OF ne c1 Inr] obtain bodies1 where
        r1: "?run [concat cs] = (flushed, HTTPResponseStart rs' # bodies1, None)"
        and b1: "list_all is_body bodies1"
          "body_bytes bodies1 = replace1 marker scr ([] @ concat [concat cs])"
        by blast
      show ?thesis
        unfolding r r1 using b b1 by (simp add: not_body_filter)
    qed
  qed
  then show ?thesis
    by (simp add: send_start_fresh del: body_events.simps)
qed

theorem chunking_independent_witness:
  "[''a</he'', ''ad>b''] \<noteq> []
   \<and> final_output
       (run (mangle_callback ''<s></head>'') ResponseMangler_init
          (HTTPResponseStart \<lparr>status = 200, headers = Some [(''Content-Length'', ''9'')]\<rparr>
             # body_events [''a</he'', ''ad>b'']))
     = final_output
       (run (mangle_callback ''<s></head>'') ResponseMangler_init
          (HTTPResponseStart \<lparr>status = 200, headers = Some [(''Content-Length'', ''9'')]\<rparr>
             # body_events [concat [''a</he'', ''ad>b'']]))"
proof -
  have h: "[''a</he'', ''ad>b''] \<noteq> []" by simp
  show ?thesis by (intro conjI h chunking_independent[OF h])
qed

section \<open>The start event comes first\<close>

text \<open>
  Claim C3. For a start event followed by body events, and after any number \<open>k\<close> of
  them has been sent: as long as the rewriter has not flushed, the sink has received
  nothing; once it has flushed, the sink has received exactly one start event, first,
  and after it body events only. This holds for every rewrite function.
\<close>

theorem start_precedes_body:
  assumes "list_all is_body bs"
  shows "case run f ResponseMangler_init (take k (HTTPResponseStart rs # bs)) of
           (m', out, r) \<Rightarrow> if is_done m' then start_then_bodies out else out = []"
proof (cases k)
  case 0
  then show ?thesis by (simp add: ResponseMangler_init_def)
next
  case (Suc j)
  from assms have "list_all is_body (take j bs)"
    by (auto simp: list_all_iff dest: in_set_takeD)
  from run_buffering_invariant[OF this, of "buffering rs []" f] show ?thesis
    by (auto simp: Suc send_start_fresh buffering_def split: prod.splits)
qed

theorem start_precedes_body_witness:
  "list_all is_body [HTTPResponseBody (Some ''a</head>'') (Some True),
                     HTTPResponseBody (Some ''b'') (Some False)]
   \<and> (case run (mangle_callback ''<s></head>'') ResponseMangler_init
              (take 3 (HTTPResponseStart \<lparr>status = 200, headers = Some []\<rparr>
                 # [HTTPResponseBody (Some ''a</head>'') (Some True),
                    HTTPResponseBody (Some ''b'') (Some False)])) of
         (m', out, r) \<Rightarrow> if is_done m' then start_then_bodies out else out = [])"
proof -
  have h: "list_all is_body [HTTPResponseBody (Some ''a</head>'') (Some True),
                             HTTPResponseBody (Some ''b'') (Some False)]"
    by simp
  show ?thesis by (intro conjI h start_precedes_body[OF h])
qed

section \<open>The authentication of \<open>/notify\<close>\<close>

text \<open>
  Claim C4. On a \<open>/notify\<close> connection whose \<open>Shiny-Autoreload-Secret\<close> header (the
  empty string when absent) differs from the secret of the server, the handler
  returns having made no call at all: it reads no message, it does not call \<open>nudge\<close>,
  so that \<open>reload_now\<close> is neither set nor cleared and the browser is not opened, and
  \<open>launch_browser\<close> is unchanged. This holds whatever the peer sends.
\<close>

theorem notify_auth_gate:
  assumes "conn_request conn = Some rq"
    and "path rq = str_lit ''/notify''"
    and "headers_get (request_headers rq) (str_lit ''Shiny-Autoreload-Secret'') (Some [])
           = Inr (Some req_secret)"
    and "req_secret \<noteq> secret"
  shows "reload_server app_url secret st (conn\<lparr>inbox := msgs\<rparr>) pulses = (st, [], Returned)"
  using assms by (simp add: reload_server_def notify_path_not_autoreload)

theorem notify_auth_gate_witness:
  "conn_request \<lparr>conn_request = Some \<lparr>path = str_lit ''/notify'',
        request_headers = [(str_lit ''Shiny-Autoreload-Secret'', str_lit ''wrong'')]\<rparr>,
      inbox = []\<rparr>
     = Some \<lparr>path = str_lit ''/notify'',
        request_headers = [(str_lit ''Shiny-Autoreload-Secret'', str_lit ''wrong'')]\<rparr>
   \<and> path \<lparr>path = str_lit ''/notify'',
        request_headers = [(str_lit ''Shiny-Autoreload-Secret'', str_lit ''wrong'')]\<rparr>
     = str_lit ''/notify''
   \<and> headers_get (request_headers \<lparr>path = str_lit ''/notify'',
        request_headers = [(str_lit ''Shiny-Autoreload-Secret'', str_lit ''wrong'')]\<rparr>)
          (str_lit ''Shiny-Autoreload-Secret'') (Some [])
     = Inr (Some (str_lit ''wrong''))
   \<and> str_lit ''wrong'' \<noteq> str_lit ''abc''
   \<and> reload_server (str_lit ''http://127.0.0.1:8000/'') (str_lit ''abc'')
        \<lparr>launch_browser = True\<rparr>
        \<lparr>conn_request = Some \<lparr>path = str_lit ''/notify'',
            request_headers = [(str_lit ''Shiny-Autoreload-Secret'', str_lit ''wrong'')]\<rparr>,
          inbox = [Text (str_lit ''reload_end'')]\<rparr> [True]
     = (\<lparr>launch_browser = True\<rparr>, [], Returned)"
proof -
  let ?rq = "\<lparr>path = str_lit ''/notify'',
        request_headers = [(str_lit ''Shiny-Autoreload-Secret'', str_lit ''wrong'')]\<rparr>"
  let ?conn = "\<lparr>conn_request = Some ?rq, inbox = []\<rparr>"
  have h1: "conn_request ?conn = Some ?rq" by simp
  have h2: "path ?rq = str_lit ''/notify''" by simp
  have h3: "headers_get (request_headers ?rq) (str_lit ''Shiny-Autoreload-Secret'') (Some [])
              = Inr (Some (str_lit ''wrong''))"
    by (simp add: headers_get_def get_all_def)
  have h4: "str_lit ''wrong'' \<noteq> str_lit ''abc''"
    by (simp add: str_lit_def)
  from notify_auth_gate[OF h1 h2 h3 h4, of "str_lit ''http://127.0.0.1:8000/''"
      "\<lparr>launch_browser = True\<rparr>" "[Text (str_lit ''reload_end'')]" "[True]"]
  have c: "reload_server (str_lit ''http://127.0.0.1:8000/'') (str_lit ''abc'')
        \<lparr>launch_browser = True\<rparr>
        \<lparr>conn_request = Some ?rq, inbox = [Text (str_lit ''reload_end'')]\<rparr> [True]
     = (\<lparr>launch_browser = True\<rparr>, [], Returned)"
    by simp
  show ?thesis by (intro conjI h1 h2 h3 h4 c)
qed

text \<open>
  With the right secret the same message does reach \<open>nudge\<close>, also when the header
  name comes in lower case. When the header is repeated, \<open>headers.get\<close> raises, nothing
  catches it, and again the handler has read nothing and has not called \<open>nudge\<close>.
\<close>

lemma right_secret_nudges:
  "reload_server (str_lit ''http://127.0.0.1:8000/'') (str_lit ''abc'')
        \<lparr>launch_browser = True\<rparr>
        \<lparr>conn_request = Some \<lparr>path = str_lit ''/notify'',
            request_headers = [(str_lit ''shiny-autoreload-secret'', str_lit ''abc'')]\<rparr>,
          inbox = [Text (str_lit ''reload_end'')]\<rparr> [True]
     = (\<lparr>launch_browser = False\<rparr>,
        [ConnRecv, WebbrowserOpen (str_lit ''http://127.0.0.1:8000/'') 1, EventSet, EventClear],
        Returned)"
  by code_simp

lemma repeated_secret_raises:
  assumes "conn_request conn = Some rq"
    and "path rq = str_lit ''/notify''"
    and "headers_get (request_headers rq) (str_lit ''Shiny-Autoreload-Secret'') (Some [])
           = Inl e"
  shows "reload_server app_url secret st conn pulses = (st, [], Raised e)"
  using assms by (simp add: reload_server_def notify_path_not_autoreload)

section \<open>No marker in the body\<close>

text \<open>
  Claim C5. When the marker occurs nowhere in the body, however the body is chunked
  (at least one chunk), the rewriter sends the start event as it received it, so with
  every header value unchanged, and one body event carrying exactly the bytes of the
  body.
\<close>

theorem no_marker_passthrough:
  assumes "cs \<noteq> []" and "\<not> contains marker (concat cs)"
  shows "run (mangle_callback scr) ResponseMangler_init (HTTPResponseStart rs # body_events cs)
       = (flushed,
          [HTTPResponseStart rs, HTTPResponseBody (Some (concat cs)) (Some False)], None)"
proof -
  from assms(2) have "\<not> contains marker ([] @ concat cs)" by simp
  from run_no_marker[OF assms(1) this, of scr rs] show ?thesis
    by (simp add: send_start_fresh)
qed

theorem no_marker_passthrough_witness:
  "[''ab'', ''cd''] \<noteq> []
   \<and> \<not> contains marker (concat [''ab'', ''cd''])
   \<and> run (mangle_callback ''<s></head>'') ResponseMangler_init
         (HTTPResponseStart \<lparr>status = 200, headers = Some [(''Content-Length'', ''4'')]\<rparr>
            # body_events [''ab'', ''cd''])
       = (flushed,
          [HTTPResponseStart \<lparr>status = 200, headers = Some [(''Content-Length'', ''4'')]\<rparr>,
           HTTPResponseBody (Some (concat [''ab'', ''cd''])) (Some False)], None)"
proof -
  have h1: "[''ab'', ''cd''] \<noteq> []" by simp
  have h2: "\<not> contains marker (concat [''ab'', ''cd''])" by (simp add: marker_def)
  show ?thesis by (intro conjI h1 h2 no_marker_passthrough[OF h1 h2])
qed

section \<open>Body event before start event\<close>

text \<open>
  Claim C6. A fresh \<open>ResponseMangler\<close> that receives an \<open>http.response.body\<close> event
  before any \<open>http.response.start\<close> event raises \<open>AssertionError\<close>, forwards nothing
  downstream and is left as it was, whatever the event carries and whatever the
  rewrite function is.
\<close>

theorem body_before_start_raises:
  "send mangler ResponseMangler_init (HTTPResponseBody chunk mb)
     = (ResponseMangler_init, [], Some AssertionError)"
  by (simp add: send_def ResponseMangler_init_def)

theorem body_before_start_raises_witness:
  "send (mangle_callback ''<s></head>'') ResponseMangler_init
     (HTTPResponseBody (Some ''<head></head>'') (Some False))
     = (ResponseMangler_init, [], Some AssertionError)"
  by (rule body_before_start_raises)

section \<open>The browser is opened once\<close>

text \<open>
  Claim C8. In a sequence of one or more invocations of \<open>nudge\<close>, the first one opens
  the browser if and only if \<open>launch_browser\<close> was set, no later one opens it, every
  one sets and then clears \<open>reload_now\<close>, and \<open>launch_browser\<close> is cleared afterwards.
\<close>

theorem browser_opened_once:
  "nudges app_url st (Suc n)
     = (st\<lparr>launch_browser := False\<rparr>,
        ((if launch_browser st then [WebbrowserOpen app_url 1] else []) @ [EventSet, EventClear])
          # replicate n [EventSet, EventClear])"
proof (induction n arbitrary: st)
  case 0
  then show ?case by (simp add: nudge_def)
next
  case (Suc n)
  have "nudges app_url st (Suc (Suc n))
      = (case nudge app_url st of
           (st', effs) \<Rightarrow>
             (case nudges app_url st' (Suc n) of (st'', rest) \<Rightarrow> (st'', effs # rest)))"
    by (simp only: nudges.simps)
  then show ?case
    unfolding Suc.IH by (simp add: nudge_def)
qed

theorem browser_opened_once_witness:
  "nudges (str_lit ''http://127.0.0.1:8000/'') \<lparr>launch_browser = True\<rparr> 3
     = (\<lparr>launch_browser = False\<rparr>,
        [[WebbrowserOpen (str_lit ''http://127.0.0.1:8000/'') 1, EventSet, EventClear],
         [EventSet, EventClear], [EventSet, EventClear]])"
  using browser_opened_once[of "str_lit ''http://127.0.0.1:8000/''" "\<lparr>launch_browser = True\<rparr>" 2]
  by (simp add: numeral_3_eq_3 numeral_2_eq_2)

section \<open>Requests that are not upgrades\<close>

text \<open>
  A request that carries the \<open>Upgrade\<close> header twice: \<open>headers.get\<close> raises
  \<open>MultipleValuesError\<close>, so \<open>process_request\<close> returns neither \<open>None\<close> nor a response.
\<close>

theorem redirect_counterexample:
  "get_all [(str_lit ''Upgrade'', str_lit ''websocket''), (str_lit ''Upgrade'', str_lit ''h2c'')]
       (str_lit ''Upgrade'')
     = [str_lit ''websocket'', str_lit ''h2c'']
   \<and> process_request (str_lit ''http://127.0.0.1:8000/'')
         \<lparr>conn_request = None, inbox = []\<rparr>
         \<lparr>path = str_lit ''/autoreload'',
          request_headers =
            [(str_lit ''Upgrade'', str_lit ''websocket''), (str_lit ''Upgrade'', str_lit ''h2c'')]\<rparr>
       = Inl MultipleValuesError"
  by code_simp

text \<open>
  Claim C9, amended. For a request without an \<open>Upgrade\<close> header, \<open>process_request\<close>
  returns a response with status 301, reason phrase \<open>Moved Permanently\<close> and the
  application URL as its \<open>Location\<close> header; for a request with exactly one \<open>Upgrade\<close>
  header it returns \<open>None\<close>; for a request with more than one it raises
  \<open>MultipleValuesError\<close>.
\<close>

theorem redirect_without_upgrade:
  "(get_all (request_headers rq) (str_lit ''Upgrade'') = [] \<longrightarrow>
      process_request app_url conn rq
        = Inr (Some \<lparr>status_code = 301, reason_phrase = str_lit ''Moved Permanently'',
                     response_headers = [(str_lit ''Location'', app_url)]\<rparr>))
   \<and> (length (get_all (request_headers rq) (str_lit ''Upgrade'')) = 1 \<longrightarrow>
        process_request app_url conn rq = Inr None)
   \<and> (length (get_all (request_headers rq) (str_lit ''Upgrade'')) > 1 \<longrightarrow>
        process_request app_url conn rq = Inl MultipleValuesError)"
  by (auto simp: process_request_def headers_get_def split: list.splits)

theorem redirect_without_upgrade_witness:
  "get_all (request_headers \<lparr>path = str_lit ''/autoreload'', request_headers = []\<rparr>)
       (str_lit ''Upgrade'') = []
   \<and> process_request (str_lit ''http://127.0.0.1:8000/'')
         \<lparr>conn_request = None, inbox = []\<rparr>
         \<lparr>path = str_lit ''/autoreload'', request_headers = []\<rparr>
       = Inr (Some \<lparr>status_code = 301, reason_phrase = str_lit ''Moved Permanently'',
               response_headers = [(str_lit ''Location'', str_lit ''http://127.0.0.1:8000/'')]\<rparr>)
   \<and> length (get_all (request_headers \<lparr>path = str_lit ''/autoreload'',
         request_headers = [(str_lit ''upgrade'', str_lit ''websocket'')]\<rparr>)
       (str_lit ''Upgrade'')) = 1
   \<and> process_request (str_lit ''http://127.0.0.1:8000/'')
         \<lparr>conn_request = None, inbox = []\<rparr>
         \<lparr>path = str_lit ''/autoreload'',
           request_headers = [(str_lit ''upgrade'', str_lit ''websocket'')]\<rparr>
       = Inr None
   \<and> length (get_all (request_headers \<lparr>path = str_lit ''/autoreload'',
         request_headers =
           [(str_lit ''Upgrade'', str_lit ''websocket''), (str_lit ''Upgrade'', str_lit ''h2c'')]\<rparr>)
       (str_lit ''Upgrade'')) > 1
   \<and> process_request (str_lit ''http://127.0.0.1:8000/'')
         \<lparr>conn_request = None, inbox = []\<rparr>
         \<lparr>path = str_lit ''/autoreload'',
           request_headers =
             [(str_lit ''Upgrade'', str_lit ''websocket''), (str_lit ''Upgrade'', str_lit ''h2c'')]\<rparr>
       = Inl MultipleValuesError"
proof -
  let ?url = "str_lit ''http://127.0.0.1:8000/''"
  let ?conn = "\<lparr>conn_request = None, inbox = []\<rparr>"
  let ?r0 = "\<lparr>path = str_lit ''/autoreload'', request_headers = []\<rparr>"
  let ?r1 = "\<lparr>path = str_lit ''/autoreload'',
         request_headers = [(str_lit ''upgrade'', str_lit ''websocket'')]\<rparr>"
  let ?r2 = "\<lparr>path = str_lit ''/autoreload'',
         request_headers =
           [(str_lit ''Upgrade'', str_lit ''websocket''), (str_lit ''Upgrade'', str_lit ''h2c'')]\<rparr>"
  have h0: "get_all (request_headers ?r0) (str_lit ''Upgrade'') = []"
    by (simp add: get_all_def)
  have h1: "length (get_all (request_headers ?r1) (str_lit ''Upgrade'')) = 1"
    by code_simp
  have h2: "length (get_all (request_headers ?r2) (str_lit ''Upgrade'')) > 1"
    by code_simp
  from redirect_without_upgrade[of ?r0 ?url ?conn] h0
  have c0: "process_request ?url ?conn ?r0
       = Inr (Some \<lparr>status_code = 301, reason_phrase = str_lit ''Moved Permanently'',
               response_headers = [(str_lit ''Location'', ?url)]\<rparr>)"
    by blast
  from redirect_without_upgrade[of ?r1 ?url ?conn] h1
  have c1: "process_request ?url ?conn ?r1 = Inr None"
    by blast
  from redirect_without_upgrade[of ?r2 ?url ?conn] h2
  have c2: "process_request ?url ?conn ?r2 = Inl MultipleValuesError"
    by blast
  show ?thesis by (intro conjI h0 c0 h1 c1 h2 c2)
qed

section \<open>Constructing the middleware\<close>

text \<open>
  With exactly one argument the constructor can still raise. It reads
  \<open>SHINY_AUTORELOAD_PORT\<close> from the environment of its process and checks nothing about
  the value. The script tag is encoded as ASCII, so a URL with a code point above 127
  (here \<open>U+00E9\<close> in the port, with a \<open>get_proxy_url\<close> that returns its argument) makes
  \<open>encode("ascii")\<close> raise; and what \<open>get_proxy_url\<close> raises (here \<open>ValueError\<close>, on a
  port that is not a number) comes out of the constructor.
\<close>

theorem init_raises_counterexample:
  "InjectAutoreloadMiddleware_init (\<lambda>u. Inr u) (Some [233]) (0::nat) ([]::nat list) []
     = Inl UnicodeEncodeError
   \<and> InjectAutoreloadMiddleware_init (\<lambda>u. Inl ValueError) (Some (str_lit ''abc'')) (0::nat)
       ([]::nat list) []
     = Inl ValueError"
  by (simp add: InjectAutoreloadMiddleware_init_def autoreload_url_def encode_script str_lit_def)

text \<open>
  Claim C10, amended. With any extra positional or keyword argument the constructor
  raises \<open>TypeError\<close>. With none, it raises what \<open>get_proxy_url\<close> raises, and
  \<open>UnicodeEncodeError\<close> when the URL that \<open>get_proxy_url\<close> returns is non-empty and
  has a code point above 127, and nothing else; when it does not raise, the script is
  empty for an absent or empty URL and is the encoded script tag around the escaped
  URL otherwise. When no autoreload URL is configured (\<open>SHINY_AUTORELOAD_PORT\<close> unset
  or empty) the constructor does not raise, the script is the empty byte string and
  every request is passed on with the \<open>send\<close> callable it came with.
\<close>

theorem init_errors:
  "(args \<noteq> [] \<or> kwargs \<noteq> [] \<longrightarrow>
      InjectAutoreloadMiddleware_init get_proxy_url port a args kwargs = Inl TypeError)
   \<and> (args = [] \<and> kwargs = [] \<longrightarrow>
      InjectAutoreloadMiddleware_init get_proxy_url port a args kwargs
        = (case autoreload_url get_proxy_url port of
             Inl e \<Rightarrow> Inl e
           | Inr None \<Rightarrow> Inr \<lparr>app = a, script = []\<rparr>
           | Inr (Some u) \<Rightarrow>
               if u = [] then Inr \<lparr>app = a, script = []\<rparr>
               else if list_all (\<lambda>c. c < 128) u
               then Inr \<lparr>app = a,
                         script = map char_of (script_head @ html_escape u @ script_tail)\<rparr>
               else Inl UnicodeEncodeError))
   \<and> (args = [] \<and> kwargs = [] \<and> (port = None \<or> port = Some []) \<longrightarrow>
      InjectAutoreloadMiddleware_init get_proxy_url port a args kwargs
        = Inr \<lparr>app = a, script = []\<rparr>
      \<and> InjectAutoreloadMiddleware_call \<lparr>app = a, script = []\<rparr> sc = DownstreamSend)"
  by (auto simp: InjectAutoreloadMiddleware_init_def InjectAutoreloadMiddleware_call_def
      autoreload_url_def encode_script split: option.splits sum.splits)

theorem init_errors_witness:
  "InjectAutoreloadMiddleware_init (\<lambda>u. Inr u) (Some (str_lit ''8000'')) (0::nat) [1::nat] []
     = Inl TypeError
   \<and> InjectAutoreloadMiddleware_init (\<lambda>u. Inr u) (Some (str_lit ''8000'')) (0::nat)
       ([]::nat list) []
     = Inr \<lparr>app = 0,
            script = ''  <script src='' @ [CHR 0x22] @ ''__shared/shiny-autoreload.js''
              @ [CHR 0x22] @ '' data-ws-url='' @ [CHR 0x22] @ ''ws://127.0.0.1:8000/autoreload''
              @ [CHR 0x22] @ ''></script>'' @ [CHR 0x0A] @ ''</head>''\<rparr>
   \<and> InjectAutoreloadMiddleware_init (\<lambda>u. Inl ValueError) None (0::nat) ([]::nat list) []
     = Inr \<lparr>app = 0, script = []\<rparr>
   \<and> InjectAutoreloadMiddleware_call \<lparr>app = 0::nat, script = []\<rparr>
       \<lparr>scope_type = str_lit ''http'', scope_path = str_lit ''/''\<rparr> = DownstreamSend"
proof -
  have u: "autoreload_url (\<lambda>u. Inr u) (Some (str_lit ''8000''))
             = Inr (Some (str_lit ''ws://127.0.0.1:8000/autoreload''))"
    by (simp add: autoreload_url_def str_lit_def)
  have s: "map char_of (script_head
             @ html_escape (str_lit ''ws://127.0.0.1:8000/autoreload'') @ script_tail)
         = ''  <script src='' @ [CHR 0x22] @ ''__shared/shiny-autoreload.js''
              @ [CHR 0x22] @ '' data-ws-url='' @ [CHR 0x22] @ ''ws://127.0.0.1:8000/autoreload''
              @ [CHR 0x22] @ ''></script>'' @ [CHR 0x0A] @ ''</head>''"
    by code_simp
  have a: "list_all (\<lambda>c. c < 128) (str_lit ''ws://127.0.0.1:8000/autoreload'')"
    and ne: "str_lit ''ws://127.0.0.1:8000/autoreload'' \<noteq> []"
    by (simp_all add: str_lit_def)
  from init_errors[of "[1::nat]" "[]" "\<lambda>u. Inr u" "Some (str_lit ''8000'')" "0::nat"]
  have c1: "InjectAutoreloadMiddleware_init (\<lambda>u. Inr u) (Some (str_lit ''8000'')) (0::nat)
      [1::nat] []
     = Inl TypeError"
    by simp
  from init_errors[of "[]::nat list" "[]" "\<lambda>u. Inr u" "Some (str_lit ''8000'')" "0::nat"]
  have c2: "InjectAutoreloadMiddleware_init (\<lambda>u. Inr u) (Some (str_lit ''8000'')) (0::nat)
      ([]::nat list) []
     = Inr \<lparr>app = 0,
            script = ''  <script src='' @ [CHR 0x22] @ ''__shared/shiny-autoreload.js''
              @ [CHR 0x22] @ '' data-ws-url='' @ [CHR 0x22] @ ''ws://127.0.0.1:8000/autoreload''
              @ [CHR 0x22] @ ''></script>'' @ [CHR 0x0A] @ ''</head>''\<rparr>"
    unfolding u using a ne s by simp
  from init_errors[of "[]::nat list" "[]" "\<lambda>u. Inl ValueError" None "0::nat"
      "\<lparr>scope_type = str_lit ''http'', scope_path = str_lit ''/''\<rparr>"]
  have c3: "InjectAutoreloadMiddleware_init (\<lambda>u. Inl ValueError) None (0::nat) ([]::nat list) []
     = Inr \<lparr>app = 0, script = []\<rparr>"
    and c4: "InjectAutoreloadMiddleware_call \<lparr>app = 0::nat, script = []\<rparr>
       \<lparr>scope_type = str_lit ''http'', scope_path = str_lit ''/''\<rparr> = DownstreamSend"
    by (simp_all add: autoreload_url_def)
  show ?thesis by (intro conjI c1 c2 c3 c4)
qed

end
